theory Spec2Isabelle
  imports Main
begin

section \<open>SimpleVector: a growable array over an owned buffer\<close>

text \<open>
  The class \<^verbatim>\<open>SimpleVector<Type>\<close> of \<^verbatim>\<open>simple_vector.h\<close> is embedded as a record of
  its three data members and one HOL function per member function. Mutation is explicit
  state passing: a member function takes the object and returns the object afterwards.

  \<^item> \<^verbatim>\<open>size_t\<close> is \<open>nat\<close>. A buffer of \<open>2 ^ 63\<close> elements cannot be allocated, so
    the products \<^verbatim>\<open>capacity_ * 2\<close> of the source do not wrap; allocation itself is
    taken to succeed.
  \<^item> The value \<^verbatim>\<open>Type()\<close> of the element type is the parameter \<open>dflt\<close>.
  \<^item> An iterator is its offset from \<^verbatim>\<open>begin()\<close>, so \<^verbatim>\<open>begin()\<close> is offset \<open>0\<close> and
    \<^verbatim>\<open>end()\<close> is offset \<^verbatim>\<open>size_\<close>.
  \<^item> Moving an element is modelled as copying it: every moved-from slot of the source
    is either overwritten, dropped with its buffer, or left outside the live range.
  \<^item> What can go wrong is a value of type \<open>error\<close>: the exception of \<^verbatim>\<open>At\<close>, a failed
    \<^verbatim>\<open>assert\<close>, and an access outside the allocated buffer (undefined behaviour in C++).
\<close>

datatype error = OutOfRange | AssertionFailed | BufferOverrun

definition and_then :: "error + 'a \<Rightarrow> ('a \<Rightarrow> error + 'b) \<Rightarrow> error + 'b" where
  "and_then m f = (case m of Inl e \<Rightarrow> Inl e | Inr x \<Rightarrow> f x)"

subsection \<open>The owned buffer\<close>

text \<open>
  Modelled from the spec: \<^verbatim>\<open>ArrayPtr<Type>\<close> (\<^verbatim>\<open>array_ptr.h\<close> is included by the source
  but is not among the source files). Following section 4.1 of the specification, a
  buffer is a block of slots, given here as the list of the slots' values;
  construction with a capacity yields that many default-constructed slots, the
  default-constructed buffer holds no storage, access by position is unchecked (out of
  range it is undefined behaviour, here \<open>BufferOverrun\<close>), and a moved-from buffer is
  empty.
\<close>

type_synonym 'a ArrayPtr = "'a list"

definition ArrayPtr_new :: "'a \<Rightarrow> nat \<Rightarrow> 'a ArrayPtr" where
  "ArrayPtr_new dflt n = replicate n dflt"

definition ArrayPtr_empty :: "'a ArrayPtr" where
  "ArrayPtr_empty = []"

definition ArrayPtr_get :: "'a ArrayPtr \<Rightarrow> nat \<Rightarrow> error + 'a" where
  "ArrayPtr_get buf i = (if i < length buf then Inr (buf ! i) else Inl BufferOverrun)"

definition ArrayPtr_set :: "'a ArrayPtr \<Rightarrow> nat \<Rightarrow> 'a \<Rightarrow> error + 'a ArrayPtr" where
  "ArrayPtr_set buf i x = (if i < length buf then Inr (buf[i := x]) else Inl BufferOverrun)"

subsection \<open>The standard algorithms used by the class\<close>

text \<open>
  \<^verbatim>\<open>std::copy(first, last, d_first)\<close> from one buffer into another, element by element
  from the front. \<^verbatim>\<open>Reserve\<close> calls \<^verbatim>\<open>std::move\<close> between two distinct buffers, which
  is the same loop.
\<close>

function copy_loop :: "'a list \<Rightarrow> nat \<Rightarrow> nat \<Rightarrow> 'a list \<Rightarrow> nat \<Rightarrow> 'a list" where
  "copy_loop src first lst dst d_first =
     (if first < lst
      then copy_loop src (Suc first) lst (dst[d_first := src ! first]) (Suc d_first)
      else dst)"
  by pat_completeness auto
termination
  by (relation "measure (\<lambda>(src, first, lst, dst, d_first). lst - first)") auto

definition std_copy :: "'a list \<Rightarrow> nat \<Rightarrow> nat \<Rightarrow> 'a list \<Rightarrow> nat \<Rightarrow> error + 'a list" where
  "std_copy src first lst dst d_first =
     (if first \<le> lst \<and> lst \<le> length src \<and> d_first + (lst - first) \<le> length dst
      then Inr (copy_loop src first lst dst d_first)
      else Inl BufferOverrun)"

text \<open>
  \<^verbatim>\<open>std::move(first, last, d_first)\<close> with both ranges in the same buffer, as in
  \<^verbatim>\<open>Erase\<close>: front to back, each write visible to the reads after it.
\<close>

function move_loop :: "'a list \<Rightarrow> nat \<Rightarrow> nat \<Rightarrow> nat \<Rightarrow> 'a list" where
  "move_loop buf first lst d_first =
     (if first < lst
      then move_loop (buf[d_first := buf ! first]) (Suc first) lst (Suc d_first)
      else buf)"
  by pat_completeness auto
termination
  by (relation "measure (\<lambda>(buf, first, lst, d_first). lst - first)") auto

definition std_move :: "'a list \<Rightarrow> nat \<Rightarrow> nat \<Rightarrow> nat \<Rightarrow> error + 'a list" where
  "std_move buf first lst d_first =
     (if first \<le> lst \<and> lst \<le> length buf \<and> d_first + (lst - first) \<le> length buf
      then Inr (move_loop buf first lst d_first)
      else Inl BufferOverrun)"

text \<open>
  \<^verbatim>\<open>std::move_backward(first, last, d_last)\<close> within one buffer, as in \<^verbatim>\<open>Insert\<close>:
  back to front, the last element first.
\<close>

function move_backward_loop :: "'a list \<Rightarrow> nat \<Rightarrow> nat \<Rightarrow> nat \<Rightarrow> 'a list" where
  "move_backward_loop buf first lst d_last =
     (if first < lst
      then move_backward_loop (buf[d_last - 1 := buf ! (lst - 1)]) first (lst - 1) (d_last - 1)
      else buf)"
  by pat_completeness auto
termination
  by (relation "measure (\<lambda>(buf, first, lst, d_last). lst - first)") auto

definition std_move_backward :: "'a list \<Rightarrow> nat \<Rightarrow> nat \<Rightarrow> nat \<Rightarrow> error + 'a list" where
  "std_move_backward buf first lst d_last =
     (if first \<le> lst \<and> lst \<le> length buf \<and> d_last \<le> length buf \<and> lst - first \<le> d_last
      then Inr (move_backward_loop buf first lst d_last)
      else Inl BufferOverrun)"

text \<open>
  \<^verbatim>\<open>std::fill(first, last, value)\<close>; also \<^verbatim>\<open>std::generate\<close> with the generator that
  returns \<^verbatim>\<open>Type()\<close>, and the loop of \<^verbatim>\<open>Resize\<close>.
\<close>

function fill_loop :: "'a list \<Rightarrow> nat \<Rightarrow> nat \<Rightarrow> 'a \<Rightarrow> 'a list" where
  "fill_loop buf first lst x =
     (if first < lst then fill_loop (buf[first := x]) (Suc first) lst x else buf)"
  by pat_completeness auto
termination
  by (relation "measure (\<lambda>(buf, first, lst, x). lst - first)") auto

definition std_fill :: "'a list \<Rightarrow> nat \<Rightarrow> nat \<Rightarrow> 'a \<Rightarrow> error + 'a list" where
  "std_fill buf first lst x =
     (if first \<le> lst \<and> lst \<le> length buf
      then Inr (fill_loop buf first lst x)
      else Inl BufferOverrun)"

subsection \<open>The class\<close>

text \<open>
  The data members \<^verbatim>\<open>data_\<close>, \<^verbatim>\<open>size_\<close> and \<^verbatim>\<open>capacity_\<close>. A name cannot end in an
  underscore in Isabelle, hence the primes.
\<close>

record 'a SimpleVector =
  data_' :: "'a ArrayPtr"
  size_' :: nat
  capacity_' :: nat

definition GetSize :: "'a SimpleVector \<Rightarrow> nat" where
  "GetSize v = size_' v"

definition GetCapacity :: "'a SimpleVector \<Rightarrow> nat" where
  "GetCapacity v = capacity_' v"

definition IsEmpty :: "'a SimpleVector \<Rightarrow> bool" where
  "IsEmpty v = (size_' v = 0)"

text \<open>The live elements: what a traversal from \<^verbatim>\<open>begin()\<close> to \<^verbatim>\<open>end()\<close> reads.\<close>

definition live :: "'a SimpleVector \<Rightarrow> 'a list" where
  "live v = take (size_' v) (data_' v)"

subsubsection \<open>Constructors\<close>

definition SimpleVector_default :: "'a SimpleVector" where
  "SimpleVector_default = \<lparr>data_' = ArrayPtr_empty, size_' = 0, capacity_' = 0\<rparr>"

definition SimpleVector_size :: "'a \<Rightarrow> nat \<Rightarrow> error + 'a SimpleVector" where
  "SimpleVector_size dflt n =
     and_then (std_fill (ArrayPtr_new dflt n) 0 n dflt) (\<lambda>buf.
       Inr \<lparr>data_' = buf, size_' = n, capacity_' = n\<rparr>)"

definition SimpleVector_fill :: "'a \<Rightarrow> nat \<Rightarrow> 'a \<Rightarrow> error + 'a SimpleVector" where
  "SimpleVector_fill dflt n x =
     and_then (std_fill (ArrayPtr_new dflt n) 0 n x) (\<lambda>buf.
       Inr \<lparr>data_' = buf, size_' = n, capacity_' = n\<rparr>)"

definition SimpleVector_init_list :: "'a \<Rightarrow> 'a list \<Rightarrow> error + 'a SimpleVector" where
  "SimpleVector_init_list dflt init_list =
     and_then (std_copy init_list 0 (length init_list) (ArrayPtr_new dflt (length init_list)) 0)
       (\<lambda>buf. Inr \<lparr>data_' = buf, size_' = length init_list, capacity_' = length init_list\<rparr>)"

text \<open>
  The copy constructor initialises \<^verbatim>\<open>data_\<close> and \<^verbatim>\<open>size_\<close> only; \<^verbatim>\<open>capacity_\<close> keeps
  its default member initialiser, \<open>0\<close>.
\<close>

definition SimpleVector_copy :: "'a \<Rightarrow> 'a SimpleVector \<Rightarrow> error + 'a SimpleVector" where
  "SimpleVector_copy dflt other =
     and_then (std_copy (data_' other) 0 (size_' other) (ArrayPtr_new dflt (capacity_' other)) 0)
       (\<lambda>buf. Inr \<lparr>data_' = buf, size_' = size_' other, capacity_' = 0\<rparr>)"

text \<open>The move constructor returns the new object and the source as it is left.\<close>

definition SimpleVector_move :: "'a SimpleVector \<Rightarrow> 'a SimpleVector \<times> 'a SimpleVector" where
  "SimpleVector_move other =
     (\<lparr>data_' = data_' other, size_' = size_' other, capacity_' = capacity_' other\<rparr>,
      other\<lparr>data_' := ArrayPtr_empty, size_' := 0, capacity_' := 0\<rparr>)"

subsubsection \<open>Member functions\<close>

definition At :: "'a SimpleVector \<Rightarrow> nat \<Rightarrow> error + 'a" where
  "At v index = (if index \<ge> size_' v then Inl OutOfRange else ArrayPtr_get (data_' v) index)"

definition Clear :: "'a SimpleVector \<Rightarrow> 'a SimpleVector" where
  "Clear v = v\<lparr>size_' := 0\<rparr>"

definition Reserve :: "'a \<Rightarrow> nat \<Rightarrow> 'a SimpleVector \<Rightarrow> error + 'a SimpleVector" where
  "Reserve dflt new_capacity v =
     (if new_capacity > capacity_' v
      then and_then (std_copy (data_' v) 0 (size_' v) (ArrayPtr_new dflt new_capacity) 0)
             (\<lambda>new_data. Inr (v\<lparr>data_' := new_data, capacity_' := new_capacity\<rparr>))
      else Inr v)"

definition SimpleVector_reserve :: "'a \<Rightarrow> nat \<Rightarrow> error + 'a SimpleVector" where
  "SimpleVector_reserve dflt reserve_size = Reserve dflt reserve_size SimpleVector_default"

definition Resize :: "'a \<Rightarrow> nat \<Rightarrow> 'a SimpleVector \<Rightarrow> error + 'a SimpleVector" where
  "Resize dflt new_size v =
     (if new_size \<le> size_' v then Inr (v\<lparr>size_' := new_size\<rparr>)
      else
        and_then
          (if new_size > capacity_' v
           then Reserve dflt
                  (if new_size > capacity_' v * 2 then new_size else capacity_' v * 2) v
           else Inr v)
          (\<lambda>v1. and_then (std_fill (data_' v1) (size_' v1) new_size dflt)
            (\<lambda>buf. Inr (v1\<lparr>data_' := buf, size_' := new_size\<rparr>))))"

text \<open>\<^verbatim>\<open>PushBack(const Type&)\<close> reallocates with a loop of its own.\<close>

definition PushBack_copy :: "'a \<Rightarrow> 'a \<Rightarrow> 'a SimpleVector \<Rightarrow> error + 'a SimpleVector" where
  "PushBack_copy dflt item v =
     and_then
       (if size_' v = capacity_' v
        then (let new_capacity = (if capacity_' v = 0 then 1 else capacity_' v * 2) in
              and_then (std_copy (data_' v) 0 (size_' v) (ArrayPtr_new dflt new_capacity) 0)
                (\<lambda>new_data. Inr (v\<lparr>data_' := new_data, capacity_' := new_capacity\<rparr>)))
        else Inr v)
       (\<lambda>v1. and_then (ArrayPtr_set (data_' v1) (size_' v1) item)
         (\<lambda>buf. Inr (v1\<lparr>data_' := buf, size_' := size_' v1 + 1\<rparr>)))"

text \<open>\<^verbatim>\<open>PushBack(Type&&)\<close> reallocates through \<^verbatim>\<open>Reserve\<close>.\<close>

definition PushBack_move :: "'a \<Rightarrow> 'a \<Rightarrow> 'a SimpleVector \<Rightarrow> error + 'a SimpleVector" where
  "PushBack_move dflt item v =
     and_then
       (if size_' v = capacity_' v
        then Reserve dflt (if capacity_' v = 0 then 1 else capacity_' v * 2) v
        else Inr v)
       (\<lambda>v1. and_then (ArrayPtr_set (data_' v1) (size_' v1) item)
         (\<lambda>buf. Inr (v1\<lparr>data_' := buf, size_' := size_' v1 + 1\<rparr>)))"

text \<open>
  The two overloads of \<^verbatim>\<open>Insert\<close> have the same body up to the move of the value, so
  one function stands for both. The position is an offset; a position before
  \<^verbatim>\<open>begin()\<close> has none, and the assertion is left with \<^verbatim>\<open>pos <= end()\<close>. The result is
  the object afterwards and the returned position.
\<close>

definition Insert :: "'a \<Rightarrow> nat \<Rightarrow> 'a \<Rightarrow> 'a SimpleVector \<Rightarrow> error + ('a SimpleVector \<times> nat)" where
  "Insert dflt pos x v =
     (if \<not> pos \<le> size_' v then Inl AssertionFailed
      else
        (let offset = pos in
         and_then
           (if size_' v = capacity_' v
            then Reserve dflt (if capacity_' v = 0 then 1 else capacity_' v * 2) v
            else Inr v)
           (\<lambda>v1. and_then (std_move_backward (data_' v1) offset (size_' v1) (size_' v1 + 1))
             (\<lambda>buf1. and_then (ArrayPtr_set buf1 offset x)
               (\<lambda>buf2. Inr (v1\<lparr>data_' := buf2, size_' := size_' v1 + 1\<rparr>, offset))))))"

definition PopBack :: "'a SimpleVector \<Rightarrow> error + 'a SimpleVector" where
  "PopBack v = (if \<not> size_' v > 0 then Inl AssertionFailed else Inr (v\<lparr>size_' := size_' v - 1\<rparr>))"

definition Erase :: "nat \<Rightarrow> 'a SimpleVector \<Rightarrow> error + ('a SimpleVector \<times> nat)" where
  "Erase pos v =
     (if \<not> pos < size_' v then Inl AssertionFailed
      else
        (let offset = pos in
         and_then (std_move (data_' v) (offset + 1) (size_' v) offset)
           (\<lambda>buf. Inr (v\<lparr>data_' := buf, size_' := size_' v - 1\<rparr>, offset))))"

text \<open>\<^verbatim>\<open>a.swap(b)\<close> returns \<open>a\<close> and \<open>b\<close> as they are afterwards.\<close>

definition swap_vec :: "'a SimpleVector \<Rightarrow> 'a SimpleVector \<Rightarrow> 'a SimpleVector \<times> 'a SimpleVector" where
  "swap_vec this other =
     (this\<lparr>data_' := data_' other, size_' := size_' other, capacity_' := capacity_' other\<rparr>,
      other\<lparr>data_' := data_' this, size_' := size_' this, capacity_' := capacity_' this\<rparr>)"

subsubsection \<open>Assignment\<close>

text \<open>
  Both assignment operators compare the addresses of the two operands, so they are
  modelled on a store of objects: \<open>this\<close> and \<open>rhs\<close> are addresses, and the operands
  alias exactly when the addresses are equal. The temporary of the copy assignment is
  destroyed on return and is not kept in the store.
\<close>

type_synonym 'a store = "nat \<Rightarrow> 'a SimpleVector"

definition copy_assign :: "'a \<Rightarrow> nat \<Rightarrow> nat \<Rightarrow> 'a store \<Rightarrow> error + 'a store" where
  "copy_assign dflt this rhs s =
     (if this \<noteq> rhs
      then and_then (SimpleVector_copy dflt (s rhs))
             (\<lambda>temp. Inr (s(this := fst (swap_vec (s this) temp))))
      else Inr s)"

definition move_assign :: "nat \<Rightarrow> nat \<Rightarrow> 'a store \<Rightarrow> 'a store" where
  "move_assign this rhs s =
     (if this \<noteq> rhs
      then s(this := (s this)\<lparr>data_' := data_' (s rhs), size_' := size_' (s rhs),
                               capacity_' := capacity_' (s rhs)\<rparr>,
             rhs := (s rhs)\<lparr>data_' := ArrayPtr_empty, size_' := 0, capacity_' := 0\<rparr>)
      else s)"

subsection \<open>Invariants of the representation\<close>

text \<open>
  \<open>I1\<close> is the invariant of that name in the specification. \<open>in_bounds\<close> says that the
  buffer really has the slots that \<^verbatim>\<open>size_\<close> and \<^verbatim>\<open>capacity_\<close> speak of.
\<close>

definition I1 :: "'a SimpleVector \<Rightarrow> bool" where
  "I1 v = (size_' v \<le> capacity_' v)"

definition in_bounds :: "'a SimpleVector \<Rightarrow> bool" where
  "in_bounds v = (size_' v \<le> length (data_' v) \<and> capacity_' v \<le> length (data_' v))"

subsection \<open>Sequences of calls to PushBack\<close>

text \<open>A call of \<^verbatim>\<open>PushBack\<close> selects one of the two overloads by its argument.\<close>

datatype 'a push_arg = ByCopy 'a | ByMove 'a

fun PushBack :: "'a \<Rightarrow> 'a push_arg \<Rightarrow> 'a SimpleVector \<Rightarrow> error + 'a SimpleVector" where
  "PushBack dflt (ByCopy item) v = PushBack_copy dflt item v"
| "PushBack dflt (ByMove item) v = PushBack_move dflt item v"

fun pushed :: "'a push_arg \<Rightarrow> 'a" where
  "pushed (ByCopy item) = item"
| "pushed (ByMove item) = item"

fun push_all :: "'a \<Rightarrow> 'a push_arg list \<Rightarrow> 'a SimpleVector \<Rightarrow> error + 'a SimpleVector" where
  "push_all dflt [] v = Inr v"
| "push_all dflt (p # ps) v = and_then (PushBack dflt p v) (push_all dflt ps)"

subsection \<open>A sample object\<close>

text \<open>
  The vector holding \<open>1, 2, 3\<close> with one slot of slack, as left by \<^verbatim>\<open>Reserve(4)\<close> and three
  calls of \<^verbatim>\<open>PushBack\<close> on an empty vector of \<^verbatim>\<open>int\<close>.
\<close>

abbreviation vec123 :: "int SimpleVector" where
  "vec123 \<equiv> \<lparr>data_' = [1, 2, 3, 0], size_' = 3, capacity_' = 4\<rparr>"

section \<open>Properties\<close>

subsection \<open>The copying and filling functions, slot by slot\<close>

declare copy_loop.simps [simp del] move_loop.simps [simp del]
  move_backward_loop.simps [simp del] fill_loop.simps [simp del]

lemma and_then_Inl [simp]: "and_then (Inl e) f = Inl e"
  by (simp add: and_then_def)

lemma and_then_Inr [simp]: "and_then (Inr x) f = f x"
  by (simp add: and_then_def)

lemma copy_loop_length [simp]: "length (copy_loop src f l dst d) = length dst"
proof (induction src f l dst d rule: copy_loop.induct)
  case (1 src first lst dst d_first)
  then show ?case by (subst copy_loop.simps) simp
qed

lemma copy_loop_nth:
  "d + (l - f) \<le> length dst \<Longrightarrow> i < length dst \<Longrightarrow>
   copy_loop src f l dst d ! i = (if d \<le> i \<and> i < d + (l - f) then src ! (f + (i - d)) else dst ! i)"
proof (induction src f l dst d rule: copy_loop.induct)
  case (1 src first lst dst d_first)
  show ?case
  proof (cases "first < lst")
    case True
    with 1 show ?thesis
      by (subst copy_loop.simps) (auto simp: nth_list_update Suc_diff_Suc)
  next
    case False
    then show ?thesis by (subst copy_loop.simps) auto
  qed
qed

lemma move_loop_length [simp]: "length (move_loop buf f l d) = length buf"
proof (induction buf f l d rule: move_loop.induct)
  case (1 buf first lst d_first)
  then show ?case by (subst move_loop.simps) simp
qed

lemma move_loop_nth:
  "d \<le> f \<Longrightarrow> l \<le> length buf \<Longrightarrow> i < length buf \<Longrightarrow>
   move_loop buf f l d ! i = (if d \<le> i \<and> i < d + (l - f) then buf ! (f + (i - d)) else buf ! i)"
proof (induction buf f l d rule: move_loop.induct)
  case (1 buf first lst d_first)
  show ?case
  proof (cases "first < lst")
    case True
    with 1 show ?thesis
      by (subst move_loop.simps) (auto simp: nth_list_update Suc_diff_Suc)
  next
    case False
    then show ?thesis by (subst move_loop.simps) auto
  qed
qed

lemma move_backward_loop_length [simp]: "length (move_backward_loop buf f l d) = length buf"
proof (induction buf f l d rule: move_backward_loop.induct)
  case (1 buf first lst d_last)
  then show ?case by (subst move_backward_loop.simps) simp
qed

lemma move_backward_loop_nth:
  "l \<le> d \<Longrightarrow> d \<le> length buf \<Longrightarrow> i < length buf \<Longrightarrow>
   move_backward_loop buf f l d ! i =
     (if d - (l - f) \<le> i \<and> i < d then buf ! (i - (d - l)) else buf ! i)"
proof (induction buf f l d rule: move_backward_loop.induct)
  case (1 buf first lst d_last)
  show ?case
  proof (cases "first < lst")
    case True
    with 1 show ?thesis
      by (subst move_backward_loop.simps) (auto simp: nth_list_update)
  next
    case False
    then show ?thesis by (subst move_backward_loop.simps) auto
  qed
qed

lemma fill_loop_length [simp]: "length (fill_loop buf f l x) = length buf"
proof (induction buf f l x rule: fill_loop.induct)
  case (1 buf first lst x)
  then show ?case by (subst fill_loop.simps) simp
qed

lemma fill_loop_nth:
  "l \<le> length buf \<Longrightarrow> i < length buf \<Longrightarrow>
   fill_loop buf f l x ! i = (if f \<le> i \<and> i < l then x else buf ! i)"
proof (induction buf f l x rule: fill_loop.induct)
  case (1 buf first lst x)
  show ?case
  proof (cases "first < lst")
    case True
    with 1 show ?thesis
      by (subst fill_loop.simps) (auto simp: nth_list_update)
  next
    case False
    then show ?thesis by (subst fill_loop.simps) auto
  qed
qed


subsection \<open>Reallocation\<close>

lemma take_copy_loop:
  assumes "n \<le> length src" "n \<le> length dst"
  shows "take n (copy_loop src 0 n dst 0) = take n src"
proof (rule nth_equalityI)
  show "length (take n (copy_loop src 0 n dst 0)) = length (take n src)"
    using assms by simp
next
  fix i assume "i < length (take n (copy_loop src 0 n dst 0))"
  then have i: "i < n" by simp
  with assms have "copy_loop src 0 n dst 0 ! i = src ! i"
    by (simp add: copy_loop_nth)
  with i show "take n (copy_loop src 0 n dst 0) ! i = take n src ! i"
    by simp
qed

lemma std_copy_prefix:
  "n \<le> length src \<Longrightarrow> n \<le> length dst \<Longrightarrow> std_copy src 0 n dst 0 = Inr (copy_loop src 0 n dst 0)"
  by (simp add: std_copy_def)

lemma Reserve_grows:
  assumes "capacity_' v < n" "size_' v \<le> length (data_' v)" "size_' v \<le> n"
  shows "Reserve dflt n v =
           Inr (v\<lparr>data_' := copy_loop (data_' v) 0 (size_' v) (replicate n dflt) 0,
                  capacity_' := n\<rparr>)"
  using assms by (simp add: Reserve_def ArrayPtr_new_def std_copy_prefix)

lemma Reserve_keeps:
  "n \<le> capacity_' v \<Longrightarrow> Reserve dflt n v = Inr v"
  by (simp add: Reserve_def)

lemma Reserve_result:
  assumes "capacity_' v < n" "size_' v \<le> length (data_' v)" "size_' v \<le> n"
  shows "\<exists>v'. Reserve dflt n v = Inr v' \<and> capacity_' v' = n \<and> length (data_' v') = n
           \<and> size_' v' = size_' v \<and> live v' = live v"
  using assms by (simp add: Reserve_grows live_def take_copy_loop)

text \<open>The growth step shared by \<^verbatim>\<open>PushBack(Type&&)\<close> and \<^verbatim>\<open>Insert\<close>.\<close>

lemma grow_if_full:
  assumes "I1 v" "in_bounds v"
  shows "\<exists>v1. (if size_' v = capacity_' v
               then Reserve dflt (if capacity_' v = 0 then 1 else capacity_' v * 2) v
               else Inr v) = Inr v1
           \<and> size_' v1 = size_' v \<and> live v1 = live v
           \<and> size_' v1 < capacity_' v1 \<and> capacity_' v1 \<le> length (data_' v1)
           \<and> (capacity_' v1 = capacity_' v
                \<or> capacity_' v1 = (if capacity_' v = 0 then 1 else capacity_' v * 2))"
proof (cases "size_' v = capacity_' v")
  case True
  define n where "n = (if capacity_' v = 0 then 1 else capacity_' v * 2)"
  have "capacity_' v < n" by (simp add: n_def)
  moreover have "size_' v \<le> length (data_' v)" using assms by (simp add: in_bounds_def)
  moreover have "size_' v \<le> n" using True by (simp add: n_def)
  ultimately have "\<exists>v'. Reserve dflt n v = Inr v' \<and> capacity_' v' = n \<and> length (data_' v') = n
           \<and> size_' v' = size_' v \<and> live v' = live v"
    by (rule Reserve_result)
  then obtain v' where v': "Reserve dflt n v = Inr v'" "capacity_' v' = n"
      "length (data_' v') = n" "size_' v' = size_' v" "live v' = live v"
    by blast
  have "size_' v' < capacity_' v'" using v' True \<open>capacity_' v < n\<close> by simp
  with v' True show ?thesis
    unfolding n_def [symmetric] by (intro exI [of _ v']) simp
next
  case False
  with assms show ?thesis by (simp add: I1_def in_bounds_def)
qed

lemma length_live: "in_bounds v \<Longrightarrow> length (live v) = size_' v"
  by (simp add: live_def in_bounds_def)

subsection \<open>PushBack\<close>

text \<open>The two overloads differ in how they reallocate, not in what they compute.\<close>

lemma PushBack_copy_eq_move: "PushBack_copy dflt x v = PushBack_move dflt x v"
  by (simp add: PushBack_copy_def PushBack_move_def Reserve_def Let_def)

lemma PushBack_move_ok:
  assumes "I1 v" "in_bounds v"
  shows "\<exists>v'. PushBack_move dflt x v = Inr v' \<and> size_' v' = size_' v + 1
           \<and> I1 v' \<and> in_bounds v' \<and> live v' = live v @ [x]
           \<and> (capacity_' v' = capacity_' v
                \<or> capacity_' v' = (if capacity_' v = 0 then 1 else capacity_' v * 2))"
proof -
  from grow_if_full [OF assms, of dflt] obtain v1 where
    g: "(if size_' v = capacity_' v
         then Reserve dflt (if capacity_' v = 0 then 1 else capacity_' v * 2) v
         else Inr v) = Inr v1"
    and v1: "size_' v1 = size_' v" "live v1 = live v" "size_' v1 < capacity_' v1"
      "capacity_' v1 \<le> length (data_' v1)"
    and c: "capacity_' v1 = capacity_' v
             \<or> capacity_' v1 = (if capacity_' v = 0 then 1 else capacity_' v * 2)"
    by blast
  let ?v' = "v1\<lparr>data_' := (data_' v1)[size_' v1 := x], size_' := size_' v1 + 1\<rparr>"
  have "PushBack_move dflt x v = Inr ?v'"
    unfolding PushBack_move_def g using v1 by (simp add: ArrayPtr_set_def)
  moreover have "live ?v' = live v @ [x]"
    using v1 by (simp add: live_def take_Suc_conv_app_nth)
  moreover have "I1 ?v'" "in_bounds ?v'"
    using v1 by (simp_all add: I1_def in_bounds_def)
  ultimately show ?thesis using v1 c by (intro exI [of _ ?v']) simp
qed

lemma PushBack_ok:
  assumes "I1 v" "in_bounds v"
  shows "\<exists>v'. PushBack dflt p v = Inr v' \<and> size_' v' = size_' v + 1
           \<and> I1 v' \<and> in_bounds v' \<and> live v' = live v @ [pushed p]
           \<and> (capacity_' v' = capacity_' v
                \<or> capacity_' v' = (if capacity_' v = 0 then 1 else capacity_' v * 2))"
  using PushBack_move_ok [OF assms] by (cases p) (simp_all add: PushBack_copy_eq_move)

lemma doubling_keeps_power_of_two:
  assumes "c = 0 \<or> (\<exists>k. c = (2::nat) ^ k)"
    and "c' = c \<or> c' = (if c = 0 then 1 else c * 2)"
  shows "c' = 0 \<or> (\<exists>k. c' = (2::nat) ^ k)"
proof -
  have "\<exists>k. (1::nat) = 2 ^ k" by (rule exI [of _ 0]) simp
  moreover have "\<exists>j. (2::nat) ^ k * 2 = 2 ^ j" for k by (rule exI [of _ "Suc k"]) simp
  ultimately show ?thesis using assms by auto
qed

lemma push_all_from:
  assumes "I1 v" "in_bounds v" "capacity_' v = 0 \<or> (\<exists>k. capacity_' v = 2 ^ k)"
  shows "\<exists>v'. push_all dflt ps v = Inr v' \<and> size_' v' = size_' v + length ps
           \<and> I1 v' \<and> in_bounds v' \<and> live v' = live v @ map pushed ps
           \<and> (capacity_' v' = 0 \<or> (\<exists>k. capacity_' v' = 2 ^ k))"
  using assms
proof (induction ps arbitrary: v)
  case Nil
  then show ?case by simp
next
  case (Cons p ps)
  from PushBack_ok [OF Cons.prems(1,2), of dflt p] obtain v1 where
    p: "PushBack dflt p v = Inr v1" and s: "size_' v1 = size_' v + 1"
    and inv: "I1 v1" "in_bounds v1" and l: "live v1 = live v @ [pushed p]"
    and c: "capacity_' v1 = capacity_' v
             \<or> capacity_' v1 = (if capacity_' v = 0 then 1 else capacity_' v * 2)"
    by blast
  have "capacity_' v1 = 0 \<or> (\<exists>k. capacity_' v1 = 2 ^ k)"
    using Cons.prems(3) c by (rule doubling_keeps_power_of_two)
  from Cons.IH [OF inv this] obtain v' where
    "push_all dflt ps v1 = Inr v'" "size_' v' = size_' v1 + length ps"
    "I1 v'" "in_bounds v'" "live v' = live v1 @ map pushed ps"
    "capacity_' v' = 0 \<or> (\<exists>k. capacity_' v' = 2 ^ k)"
    by blast
  with p s l show ?case by (intro exI [of _ v']) simp
qed

lemma push_all_append:
  "push_all dflt (ps @ qs) v = and_then (push_all dflt ps v) (push_all dflt qs)"
proof (induction ps arbitrary: v)
  case Nil
  show ?case by simp
next
  case (Cons p ps)
  then show ?case by (cases "PushBack dflt p v") simp_all
qed

text \<open>
  C3. Take any sequence \<open>ps\<close> of calls to \<^verbatim>\<open>PushBack\<close>, each by either overload, on a
  default-constructed vector. All of them succeed; afterwards \<^verbatim>\<open>GetSize()\<close> is the number
  of calls, the live elements are the pushed values in order, \<^verbatim>\<open>GetCapacity()\<close> is \<open>0\<close> or
  a power of two, and it is at least \<^verbatim>\<open>GetSize()\<close>. The state after \<open>ps\<close> is also the
  state that any longer run \<open>ps @ qs\<close> passes through, so this holds at every point of a
  run.
\<close>

theorem push_back_from_empty:
  "\<exists>v. push_all dflt ps SimpleVector_default = Inr v
       \<and> push_all dflt (ps @ qs) SimpleVector_default = push_all dflt qs v
       \<and> GetSize v = length ps
       \<and> live v = map pushed ps
       \<and> (GetCapacity v = 0 \<or> (\<exists>k. GetCapacity v = 2 ^ k))
       \<and> GetSize v \<le> GetCapacity v"
proof -
  have "I1 (SimpleVector_default :: 'a SimpleVector)"
    "in_bounds (SimpleVector_default :: 'a SimpleVector)"
    "capacity_' (SimpleVector_default :: 'a SimpleVector) = 0"
    by (simp_all add: SimpleVector_default_def ArrayPtr_empty_def I1_def in_bounds_def)
  then obtain v where v: "push_all dflt ps SimpleVector_default = Inr v"
    "size_' v = size_' (SimpleVector_default :: 'a SimpleVector) + length ps" "I1 v"
    "live v = live (SimpleVector_default :: 'a SimpleVector) @ map pushed ps"
    "capacity_' v = 0 \<or> (\<exists>k. capacity_' v = 2 ^ k)"
    using push_all_from [of SimpleVector_default dflt ps] by blast
  have "push_all dflt (ps @ qs) SimpleVector_default = push_all dflt qs v"
    by (simp add: push_all_append v(1))
  with v show ?thesis
    by (intro exI [of _ v])
       (simp add: GetSize_def GetCapacity_def I1_def live_def SimpleVector_default_def)
qed

subsection \<open>Insert and Erase\<close>

lemma insert_shift:
  assumes "pos \<le> s" "s < length d"
  shows "take (Suc s) ((move_backward_loop d pos s (Suc s))[pos := x])
           = take pos (take s d) @ x # drop pos (take s d)"
proof (rule nth_equalityI)
  show "length (take (Suc s) ((move_backward_loop d pos s (Suc s))[pos := x]))
          = length (take pos (take s d) @ x # drop pos (take s d))"
    using assms by simp
next
  fix i assume "i < length (take (Suc s) ((move_backward_loop d pos s (Suc s))[pos := x]))"
  with assms have i: "i < Suc s" by simp
  have m: "move_backward_loop d pos s (Suc s) ! i
             = (if Suc pos \<le> i then d ! (i - 1) else d ! i)"
    using assms i by (simp add: move_backward_loop_nth Suc_diff_le)
  consider "i < pos" | "i = pos" | "pos < i" by linarith
  then show "take (Suc s) ((move_backward_loop d pos s (Suc s))[pos := x]) ! i
          = (take pos (take s d) @ x # drop pos (take s d)) ! i"
  proof cases
    case 1
    with assms i m show ?thesis by (simp add: nth_append)
  next
    case 2
    with assms i show ?thesis by (simp add: nth_append)
  next
    case 3
    then obtain j where j: "i = Suc (pos + j)" using less_iff_Suc_add by auto
    with assms i m show ?thesis by (simp add: nth_append)
  qed
qed

lemma erase_shift:
  assumes "pos < s" "s \<le> length d"
  shows "take (s - 1) (move_loop d (Suc pos) s pos)
           = take pos (take s d) @ drop (Suc pos) (take s d)"
proof (rule nth_equalityI)
  show "length (take (s - 1) (move_loop d (Suc pos) s pos))
          = length (take pos (take s d) @ drop (Suc pos) (take s d))"
    using assms by simp
next
  fix i assume "i < length (take (s - 1) (move_loop d (Suc pos) s pos))"
  with assms have i: "i < s - 1" by simp
  have m: "move_loop d (Suc pos) s pos ! i = (if pos \<le> i then d ! Suc i else d ! i)"
    using assms i by (simp add: move_loop_nth)
  show "take (s - 1) (move_loop d (Suc pos) s pos) ! i
          = (take pos (take s d) @ drop (Suc pos) (take s d)) ! i"
  proof (cases "i < pos")
    case True
    with assms i m show ?thesis by (simp add: nth_append)
  next
    case False
    then obtain j where j: "i = pos + j" using le_Suc_ex not_less by blast
    with assms i m show ?thesis by (simp add: nth_append)
  qed
qed

lemma Insert_ok:
  assumes "I1 v" "in_bounds v" "pos \<le> size_' v"
  shows "\<exists>v'. Insert dflt pos x v = Inr (v', pos) \<and> size_' v' = size_' v + 1
           \<and> I1 v' \<and> in_bounds v'
           \<and> live v' = take pos (live v) @ x # drop pos (live v)"
proof -
  from grow_if_full [OF assms(1,2), of dflt] obtain v1 where
    g: "(if size_' v = capacity_' v
         then Reserve dflt (if capacity_' v = 0 then 1 else capacity_' v * 2) v
         else Inr v) = Inr v1"
    and v1: "size_' v1 = size_' v" "live v1 = live v" "size_' v1 < capacity_' v1"
      "capacity_' v1 \<le> length (data_' v1)"
    by blast
  let ?s = "size_' v"
  let ?buf = "(move_backward_loop (data_' v1) pos ?s (Suc ?s))[pos := x]"
  let ?v' = "v1\<lparr>data_' := ?buf, size_' := Suc ?s\<rparr>"
  have len: "?s < length (data_' v1)" using v1 by simp
  have b: "std_move_backward (data_' v1) pos ?s (Suc ?s)
             = Inr (move_backward_loop (data_' v1) pos ?s (Suc ?s))"
    using len assms(3) by (simp add: std_move_backward_def)
  have "Insert dflt pos x v = Inr (?v', pos)"
    unfolding Insert_def Let_def g using len assms(3) v1(1)
    by (simp add: b ArrayPtr_set_def)
  moreover have "live ?v' = take pos (live v) @ x # drop pos (live v)"
  proof -
    have l1: "take ?s (data_' v1) = live v"
      using v1(2) unfolding live_def [of v1] v1(1) .
    from assms(3) len have "take (Suc ?s) ?buf
        = take pos (take ?s (data_' v1)) @ x # drop pos (take ?s (data_' v1))"
      by (rule insert_shift)
    then show ?thesis unfolding l1 by (simp add: live_def)
  qed
  moreover have "I1 ?v'" "in_bounds ?v'"
    using v1 by (simp_all add: I1_def in_bounds_def)
  ultimately show ?thesis by (intro exI [of _ ?v']) simp
qed

lemma Erase_ok:
  assumes "in_bounds v" "pos < size_' v"
  shows "\<exists>v'. Erase pos v = Inr (v', pos) \<and> size_' v' = size_' v - 1
           \<and> capacity_' v' = capacity_' v \<and> length (data_' v') = length (data_' v)
           \<and> live v' = take pos (live v) @ drop (Suc pos) (live v)"
proof -
  let ?v' = "v\<lparr>data_' := move_loop (data_' v) (Suc pos) (size_' v) pos, size_' := size_' v - 1\<rparr>"
  have len: "size_' v \<le> length (data_' v)" using assms(1) by (simp add: in_bounds_def)
  have "Erase pos v = Inr (?v', pos)"
    using assms(2) len by (simp add: Erase_def Let_def std_move_def)
  moreover have "live ?v' = take pos (live v) @ drop (Suc pos) (live v)"
  proof -
    from assms(2) len have "take (size_' v - 1) (move_loop (data_' v) (Suc pos) (size_' v) pos)
        = take pos (take (size_' v) (data_' v)) @ drop (Suc pos) (take (size_' v) (data_' v))"
      by (rule erase_shift)
    then show ?thesis by (simp add: live_def)
  qed
  ultimately show ?thesis by (intro exI [of _ ?v']) simp
qed

subsection \<open>Where the invariants hold\<close>

text \<open>
  Every constructor but the copy constructor establishes \<open>I1\<close> and \<open>in_bounds\<close>, and
  every member function that returns keeps them (\<open>PushBack_ok\<close> and \<open>Insert_ok\<close> above
  for the two that grow). The copy constructor keeps \<open>in_bounds\<close> only.
\<close>

lemma default_invariants:
  "I1 SimpleVector_default \<and> in_bounds SimpleVector_default"
  by (simp add: SimpleVector_default_def ArrayPtr_empty_def I1_def in_bounds_def)

lemma size_constructor_invariants:
  "\<exists>v. SimpleVector_size dflt n = Inr v \<and> I1 v \<and> in_bounds v \<and> size_' v = n"
  by (simp add: SimpleVector_size_def std_fill_def ArrayPtr_new_def I1_def in_bounds_def)

lemma fill_constructor_invariants:
  "\<exists>v. SimpleVector_fill dflt n x = Inr v \<and> I1 v \<and> in_bounds v \<and> size_' v = n"
  by (simp add: SimpleVector_fill_def std_fill_def ArrayPtr_new_def I1_def in_bounds_def)

lemma init_list_constructor_invariants:
  "\<exists>v. SimpleVector_init_list dflt xs = Inr v \<and> I1 v \<and> in_bounds v \<and> live v = xs"
  by (simp add: SimpleVector_init_list_def std_copy_def ArrayPtr_new_def I1_def in_bounds_def
      live_def take_copy_loop [of "length xs" xs "replicate (length xs) dflt", simplified])

lemma reserve_constructor_invariants:
  "\<exists>v. SimpleVector_reserve dflt n = Inr v \<and> I1 v \<and> in_bounds v \<and> size_' v = 0"
  by (simp add: SimpleVector_reserve_def Reserve_def SimpleVector_default_def ArrayPtr_empty_def
      std_copy_def ArrayPtr_new_def I1_def in_bounds_def)

lemma move_constructor_invariants:
  "I1 A \<Longrightarrow> in_bounds A \<Longrightarrow>
   I1 (fst (SimpleVector_move A)) \<and> in_bounds (fst (SimpleVector_move A))
   \<and> I1 (snd (SimpleVector_move A)) \<and> in_bounds (snd (SimpleVector_move A))"
  by (simp add: SimpleVector_move_def ArrayPtr_empty_def I1_def in_bounds_def)

lemma copy_constructor_in_bounds:
  "in_bounds A \<Longrightarrow> SimpleVector_copy dflt A = Inr B \<Longrightarrow> in_bounds B"
  by (auto simp: SimpleVector_copy_def std_copy_def ArrayPtr_new_def in_bounds_def
      split: if_splits)

lemma Clear_invariants: "I1 v \<Longrightarrow> in_bounds v \<Longrightarrow> I1 (Clear v) \<and> in_bounds (Clear v)"
  by (simp add: Clear_def I1_def in_bounds_def)

lemma PopBack_invariants:
  "I1 v \<Longrightarrow> in_bounds v \<Longrightarrow> PopBack v = Inr v' \<Longrightarrow> I1 v' \<and> in_bounds v'"
  by (auto simp: PopBack_def I1_def in_bounds_def split: if_splits)

lemma Reserve_invariants:
  "I1 v \<Longrightarrow> in_bounds v \<Longrightarrow> Reserve dflt n v = Inr v' \<Longrightarrow> I1 v' \<and> in_bounds v'"
  by (auto simp: Reserve_def std_copy_def ArrayPtr_new_def I1_def in_bounds_def split: if_splits)

lemma Resize_invariants:
  assumes "I1 v" "in_bounds v" "Resize dflt n v = Inr v'"
  shows "I1 v' \<and> in_bounds v'"
proof (cases "n \<le> size_' v")
  case True
  with assms show ?thesis by (auto simp: Resize_def I1_def in_bounds_def)
next
  case False
  show ?thesis
  proof (cases "n > capacity_' v")
    case True
    with False assms show ?thesis
      by (auto simp: Resize_def Reserve_def std_copy_def std_fill_def ArrayPtr_new_def
          I1_def in_bounds_def split: if_splits)
  next
    case c: False
    with False assms show ?thesis
      by (auto simp: Resize_def std_fill_def I1_def in_bounds_def split: if_splits)
  qed
qed

lemma Erase_invariants:
  "I1 v \<Longrightarrow> in_bounds v \<Longrightarrow> Erase pos v = Inr (v', q) \<Longrightarrow> I1 v' \<and> in_bounds v'"
  by (auto simp: Erase_def Let_def std_move_def I1_def in_bounds_def split: if_splits)

lemma swap_invariants:
  "I1 a \<Longrightarrow> in_bounds a \<Longrightarrow> I1 b \<Longrightarrow> in_bounds b \<Longrightarrow>
   I1 (fst (swap_vec a b)) \<and> in_bounds (fst (swap_vec a b))
   \<and> I1 (snd (swap_vec a b)) \<and> in_bounds (snd (swap_vec a b))"
  by (simp add: swap_vec_def I1_def in_bounds_def)

subsection \<open>Copy construction\<close>

lemma copy_ok:
  assumes "I1 A" "in_bounds A"
  shows "SimpleVector_copy dflt A =
           Inr \<lparr>data_' = copy_loop (data_' A) 0 (size_' A) (replicate (capacity_' A) dflt) 0,
                size_' = size_' A, capacity_' = 0\<rparr>"
  using assms by (simp add: SimpleVector_copy_def ArrayPtr_new_def std_copy_prefix I1_def in_bounds_def)

text \<open>
  C1, as amended. Let \<open>A\<close> satisfy \<open>I1\<close> and have the slots it speaks of. Then the copy
  constructor succeeds, and the copy \<open>B\<close> has the size of \<open>A\<close> and exactly the live
  elements of \<open>A\<close>, in order; checked access reads the same from both at every index.
  The buffer of \<open>B\<close> is a new one of \<^verbatim>\<open>A.GetCapacity()\<close> slots, so the slack of \<open>A\<close> is
  allocated again, not trimmed to \<^verbatim>\<open>A.GetSize()\<close>. The copy owns that buffer alone:
  it is built by \<open>ArrayPtr_new\<close> during the call, and \<open>A\<close> is not changed.
\<close>

theorem copy_constructor_copies_live_elements:
  assumes "I1 A" "in_bounds A"
  shows "\<exists>B. SimpleVector_copy dflt A = Inr B
           \<and> GetSize B = GetSize A
           \<and> live B = live A
           \<and> (\<forall>i. At B i = At A i)
           \<and> length (data_' B) = GetCapacity A"
proof -
  let ?B = "\<lparr>data_' = copy_loop (data_' A) 0 (size_' A) (replicate (capacity_' A) dflt) 0,
             size_' = size_' A, capacity_' = 0\<rparr>"
  have s: "size_' A \<le> length (data_' A)" "size_' A \<le> capacity_' A"
    using assms by (simp_all add: I1_def in_bounds_def)
  have c: "SimpleVector_copy dflt A = Inr ?B" using assms by (rule copy_ok)
  have l: "live ?B = live A" using s by (simp add: live_def take_copy_loop)
  have "At ?B i = At A i" for i
    using s by (simp add: At_def ArrayPtr_get_def copy_loop_nth)
  with c l show ?thesis
    by (intro exI [of _ ?B]) (simp add: GetSize_def GetCapacity_def)
qed

theorem copy_constructor_copies_live_elements_witness:
  "I1 vec123 \<and> in_bounds vec123
   \<and> (\<exists>B. SimpleVector_copy 0 vec123 = Inr B
           \<and> GetSize B = GetSize vec123
           \<and> live B = live vec123
           \<and> (\<forall>i. At B i = At vec123 i)
           \<and> length (data_' B) = GetCapacity vec123)"
proof -
  have h1: "I1 vec123" by (simp add: I1_def)
  have h2: "in_bounds vec123" by (simp add: in_bounds_def)
  show ?thesis
    by (intro conjI h1 h2 copy_constructor_copies_live_elements [OF h1 h2])
qed

text \<open>
  The claim as first stated asks for \<^verbatim>\<open>B.GetCapacity() == A.GetSize()\<close>. For
  \<open>vec123\<close>, which \<^verbatim>\<open>Reserve(4)\<close> and three pushes produce, the copy reports capacity \<open>0\<close>
  and owns \<open>4\<close> slots, while the size of the source is \<open>3\<close>.
\<close>

theorem copy_constructor_capacity_counterexample:
  "and_then (Reserve 0 4 SimpleVector_default)
     (push_all 0 [ByCopy 1, ByCopy 2, ByMove 3]) = Inr vec123
   \<and> SimpleVector_copy 0 vec123 = Inr \<lparr>data_' = [1, 2, 3, 0], size_' = 3, capacity_' = 0\<rparr>
   \<and> GetCapacity \<lparr>data_' = [1, 2, 3, 0 :: int], size_' = 3, capacity_' = 0\<rparr> \<noteq> GetSize vec123
   \<and> length (data_' \<lparr>data_' = [1, 2, 3, 0 :: int], size_' = 3, capacity_' = 0\<rparr>)
       \<noteq> GetSize vec123"
  by code_simp

text \<open>
  C2. \<open>I1\<close> does not hold in every reachable state: the vector \<open>{1}\<close> built from an
  initializer list satisfies it, and its copy has size \<open>1\<close> and capacity \<open>0\<close>. The copy
  constructor is the one constructor that leaves \<^verbatim>\<open>capacity_\<close> at its default.
\<close>

theorem copy_constructor_breaks_I1:
  "SimpleVector_init_list 0 [1 :: int] = Inr \<lparr>data_' = [1], size_' = 1, capacity_' = 1\<rparr>
   \<and> I1 \<lparr>data_' = [1 :: int], size_' = 1, capacity_' = 1\<rparr>
   \<and> SimpleVector_copy 0 \<lparr>data_' = [1 :: int], size_' = 1, capacity_' = 1\<rparr>
     = Inr \<lparr>data_' = [1], size_' = 1, capacity_' = 0\<rparr>
   \<and> \<not> I1 \<lparr>data_' = [1 :: int], size_' = 1, capacity_' = 0\<rparr>"
  by code_simp

subsection \<open>Resize\<close>

text \<open>
  C4. Let the buffer of \<open>v\<close> have the slots that its size and capacity speak of, and
  call \<^verbatim>\<open>Resize(new_size)\<close>. If \<^verbatim>\<open>new_size <= size\<close>, the size becomes \<^verbatim>\<open>new_size\<close> and
  capacity and buffer stay as they are. If \<^verbatim>\<open>new_size > size\<close>, the size becomes
  \<^verbatim>\<open>new_size\<close>; the capacity becomes \<^verbatim>\<open>max(new_size, capacity * 2)\<close> when \<^verbatim>\<open>new_size\<close>
  exceeds it and is unchanged otherwise; every slot from the old size up to \<^verbatim>\<open>new_size\<close>
  reads as \<^verbatim>\<open>Type()\<close>; and the slots below the old size read as before.
\<close>

theorem Resize_contract:
  assumes "in_bounds v"
  shows "(new_size \<le> GetSize v \<longrightarrow>
            (\<exists>v'. Resize dflt new_size v = Inr v' \<and> GetSize v' = new_size
               \<and> GetCapacity v' = GetCapacity v \<and> data_' v' = data_' v))
       \<and> (GetSize v < new_size \<longrightarrow>
            (\<exists>v'. Resize dflt new_size v = Inr v' \<and> GetSize v' = new_size
               \<and> GetCapacity v' = (if GetCapacity v < new_size
                                     then max new_size (GetCapacity v * 2)
                                     else GetCapacity v)
               \<and> (\<forall>i. GetSize v \<le> i \<and> i < new_size \<longrightarrow> At v' i = Inr dflt)
               \<and> (\<forall>i. i < GetSize v \<longrightarrow> At v' i = At v i)))"
proof (intro conjI impI)
  assume "new_size \<le> GetSize v"
  then show "\<exists>v'. Resize dflt new_size v = Inr v' \<and> GetSize v' = new_size
               \<and> GetCapacity v' = GetCapacity v \<and> data_' v' = data_' v"
    by (simp add: Resize_def GetSize_def GetCapacity_def)
next
  assume gt: "GetSize v < new_size"
  then have n: "size_' v < new_size" by (simp add: GetSize_def)
  have b: "size_' v \<le> length (data_' v)" "capacity_' v \<le> length (data_' v)"
    using assms by (simp_all add: in_bounds_def)
  define m where "m = (if new_size > capacity_' v * 2 then new_size else capacity_' v * 2)"
  have "\<exists>v1. (if new_size > capacity_' v then Reserve dflt m v else Inr v) = Inr v1
          \<and> size_' v1 = size_' v \<and> live v1 = live v \<and> new_size \<le> length (data_' v1)
          \<and> capacity_' v1 = (if capacity_' v < new_size then m else capacity_' v)"
  proof (cases "new_size > capacity_' v")
    case True
    then have "capacity_' v < m" "size_' v \<le> m" "new_size \<le> m"
      using n by (simp_all add: m_def)
    with b(1) True show ?thesis using Reserve_result [of v m dflt] by auto
  next
    case False
    with b show ?thesis by simp
  qed
  then obtain v1 where
    g: "(if new_size > capacity_' v then Reserve dflt m v else Inr v) = Inr v1"
    and v1: "size_' v1 = size_' v" "live v1 = live v" "new_size \<le> length (data_' v1)"
    and c: "capacity_' v1 = (if capacity_' v < new_size then m else capacity_' v)"
    by blast
  let ?v' = "v1\<lparr>data_' := fill_loop (data_' v1) (size_' v) new_size dflt, size_' := new_size\<rparr>"
  have r: "Resize dflt new_size v = Inr ?v'"
    unfolding Resize_def m_def [symmetric] g using n v1 by (simp add: std_fill_def)
  have "m = max new_size (capacity_' v * 2)" by (simp add: m_def max_def)
  with c have cap: "GetCapacity ?v' = (if GetCapacity v < new_size
                                     then max new_size (GetCapacity v * 2)
                                     else GetCapacity v)"
    by (simp add: GetCapacity_def)
  have new: "At ?v' i = Inr dflt" if "GetSize v \<le> i \<and> i < new_size" for i
    using that v1 by (simp add: At_def ArrayPtr_get_def GetSize_def fill_loop_nth)
  have old: "At ?v' i = At v i" if "i < GetSize v" for i
  proof -
    from that have i: "i < size_' v" by (simp add: GetSize_def)
    have "take (size_' v) (data_' v1) ! i = take (size_' v) (data_' v) ! i"
      using v1(2) unfolding live_def v1(1) by simp
    with i have "data_' v1 ! i = data_' v ! i" by simp
    with i n v1 b show ?thesis
      by (simp add: At_def ArrayPtr_get_def fill_loop_nth)
  qed
  from r cap new old
  show "\<exists>v'. Resize dflt new_size v = Inr v' \<and> GetSize v' = new_size
               \<and> GetCapacity v' = (if GetCapacity v < new_size
                                     then max new_size (GetCapacity v * 2)
                                     else GetCapacity v)
               \<and> (\<forall>i. GetSize v \<le> i \<and> i < new_size \<longrightarrow> At v' i = Inr dflt)
               \<and> (\<forall>i. i < GetSize v \<longrightarrow> At v' i = At v i)"
    by (intro exI [of _ ?v']) (simp add: GetSize_def)
qed

text \<open>The sample vector, cut down to two elements and grown to nine.\<close>

theorem Resize_contract_witness:
  "in_bounds vec123
   \<and> 2 \<le> GetSize vec123
   \<and> (\<exists>v'. Resize 0 2 vec123 = Inr v' \<and> GetSize v' = 2
         \<and> GetCapacity v' = GetCapacity vec123 \<and> data_' v' = data_' vec123)
   \<and> GetSize vec123 < 9
   \<and> (\<exists>v'. Resize 0 9 vec123 = Inr v' \<and> GetSize v' = 9
         \<and> GetCapacity v' = (if GetCapacity vec123 < 9
                               then max 9 (GetCapacity vec123 * 2)
                               else GetCapacity vec123)
         \<and> (\<forall>i. GetSize vec123 \<le> i \<and> i < 9 \<longrightarrow> At v' i = Inr 0)
         \<and> (\<forall>i. i < GetSize vec123 \<longrightarrow> At v' i = At vec123 i))"
proof -
  have h: "in_bounds vec123" by (simp add: in_bounds_def)
  have c1: "2 \<le> GetSize vec123" and c2: "GetSize vec123 < 9"
    by (simp_all add: GetSize_def)
  show ?thesis
    using Resize_contract [OF h, of 2 0] Resize_contract [OF h, of 9 0] h c1 c2
    by blast
qed

subsection \<open>Reserve\<close>

text \<open>
  Where \<open>v\<close> satisfies \<open>I1\<close> and has the slots it speaks of, \<^verbatim>\<open>Reserve(new_capacity)\<close> with
  \<^verbatim>\<open>new_capacity > GetCapacity()\<close> succeeds, leaves the capacity at \<^verbatim>\<open>new_capacity\<close>
  with a buffer of that many slots, and keeps the live elements, in order; with
  \<^verbatim>\<open>new_capacity <= GetCapacity()\<close> it changes nothing. The size is the same afterwards
  in both cases.
\<close>

lemma Reserve_under_I1:
  assumes "I1 v" "in_bounds v"
  shows "(GetCapacity v < new_capacity \<longrightarrow>
            (\<exists>v'. Reserve dflt new_capacity v = Inr v' \<and> GetCapacity v' = new_capacity
               \<and> length (data_' v') = new_capacity
               \<and> live v' = live v \<and> GetSize v' = GetSize v))
       \<and> (new_capacity \<le> GetCapacity v \<longrightarrow> Reserve dflt new_capacity v = Inr v)"
proof (intro conjI impI)
  assume "GetCapacity v < new_capacity"
  then have c: "capacity_' v < new_capacity" by (simp add: GetCapacity_def)
  moreover have "size_' v \<le> length (data_' v)" using assms by (simp add: in_bounds_def)
  moreover have "size_' v \<le> new_capacity" using assms(1) c by (simp add: I1_def)
  ultimately have "\<exists>v'. Reserve dflt new_capacity v = Inr v' \<and> capacity_' v' = new_capacity
      \<and> length (data_' v') = new_capacity \<and> size_' v' = size_' v \<and> live v' = live v"
    by (rule Reserve_result)
  then show "\<exists>v'. Reserve dflt new_capacity v = Inr v' \<and> GetCapacity v' = new_capacity
               \<and> length (data_' v') = new_capacity
               \<and> live v' = live v \<and> GetSize v' = GetSize v"
    by (auto simp: GetCapacity_def GetSize_def)
next
  assume "new_capacity \<le> GetCapacity v"
  then show "Reserve dflt new_capacity v = Inr v"
    by (simp add: Reserve_keeps GetCapacity_def)
qed

lemma Reserve_under_I1_example:
  "I1 vec123 \<and> in_bounds vec123
   \<and> GetCapacity vec123 < 6
   \<and> (\<exists>v'. Reserve 0 6 vec123 = Inr v' \<and> GetCapacity v' = 6
         \<and> length (data_' v') = 6
         \<and> live v' = live vec123 \<and> GetSize v' = GetSize vec123)
   \<and> 2 \<le> GetCapacity vec123
   \<and> Reserve 0 2 vec123 = Inr vec123"
proof -
  have h1: "I1 vec123" by (simp add: I1_def)
  have h2: "in_bounds vec123" by (simp add: in_bounds_def)
  have c1: "GetCapacity vec123 < 6" and c2: "2 \<le> GetCapacity vec123"
    by (simp_all add: GetCapacity_def)
  show ?thesis
    using Reserve_under_I1 [OF h1 h2, of 6 0] Reserve_under_I1 [OF h1 h2, of 2 0] h1 h2 c1 c2
    by blast
qed

text \<open>
  C5. \<^verbatim>\<open>Reserve(new_capacity)\<close> with \<^verbatim>\<open>new_capacity > GetCapacity()\<close> should leave the
  capacity at \<^verbatim>\<open>new_capacity\<close> and the live elements in place, for every vector. It does
  not on a copy: the copy of \<open>vec123\<close> has size \<open>3\<close> and capacity \<open>0\<close>, so \<^verbatim>\<open>Reserve(2)\<close>
  finds \<open>2 > 0\<close>, allocates two slots and moves three elements into them, which runs
  past the end of the new buffer. The cause is the capacity that the copy constructor
  leaves at \<open>0\<close>.
\<close>

theorem Reserve_overruns_on_copy:
  "and_then (Reserve 0 4 SimpleVector_default)
     (push_all 0 [ByCopy 1, ByCopy 2, ByMove 3]) = Inr vec123
   \<and> SimpleVector_copy 0 vec123 = Inr \<lparr>data_' = [1, 2, 3, 0], size_' = 3, capacity_' = 0\<rparr>
   \<and> GetCapacity \<lparr>data_' = [1, 2, 3, 0 :: int], size_' = 3, capacity_' = 0\<rparr> < 2
   \<and> Reserve 0 2 \<lparr>data_' = [1, 2, 3, 0 :: int], size_' = 3, capacity_' = 0\<rparr>
       = Inl BufferOverrun"
  by code_simp

subsection \<open>Checked access\<close>

text \<open>
  C6. Let the buffer of \<open>v\<close> have the slots its size speaks of. \<^verbatim>\<open>At(index)\<close> fails, with
  the out-of-range error, exactly when \<^verbatim>\<open>index >= GetSize()\<close>, and otherwise returns the
  live element at \<^verbatim>\<open>index\<close>; so it never hands out a slot that is not live. In
  particular \<^verbatim>\<open>At(GetSize())\<close> fails and, for a non-empty vector,
  \<^verbatim>\<open>At(GetSize() - 1)\<close> succeeds. \<open>At\<close> has no assignment in its body and is a function
  of the object alone: the object is the same after a failed call.
\<close>

theorem At_checks_bounds:
  assumes "in_bounds v"
  shows "At v index = (if GetSize v \<le> index then Inl OutOfRange else Inr (live v ! index))
       \<and> At v (GetSize v) = Inl OutOfRange
       \<and> (0 < GetSize v \<longrightarrow> At v (GetSize v - 1) = Inr (live v ! (GetSize v - 1)))"
  using assms by (auto simp: At_def ArrayPtr_get_def GetSize_def live_def in_bounds_def)

theorem At_checks_bounds_witness:
  "in_bounds vec123
   \<and> At vec123 1 = Inr 2
   \<and> At vec123 3 = Inl OutOfRange
   \<and> At vec123 (GetSize vec123) = Inl OutOfRange
   \<and> 0 < GetSize vec123
   \<and> At vec123 (GetSize vec123 - 1) = Inr 3"
proof -
  have h: "in_bounds vec123" by (simp add: in_bounds_def)
  have c: "0 < GetSize vec123" by (simp add: GetSize_def)
  have l: "live vec123 = [1, 2, 3]" by (simp add: live_def)
  show ?thesis
    using At_checks_bounds [OF h, of 1] At_checks_bounds [OF h, of 3] h c
    by (simp add: l GetSize_def)
qed

subsection \<open>Insert followed by Erase\<close>

text \<open>
  Where \<open>v\<close> satisfies \<open>I1\<close> and has the slots it speaks of, and \<open>pos\<close> lies between
  \<^verbatim>\<open>begin()\<close> and \<^verbatim>\<open>end()\<close>, both included, \<^verbatim>\<open>Insert(pos, x)\<close> succeeds and returns
  \<open>pos\<close>, \<^verbatim>\<open>Erase\<close> at the returned position succeeds, and afterwards the live elements
  and the size are those of \<open>v\<close>.
\<close>

lemma insert_then_erase_under_I1:
  assumes "I1 v" "in_bounds v" "pos \<le> GetSize v"
  shows "\<exists>v1 v2. Insert dflt pos x v = Inr (v1, pos) \<and> Erase pos v1 = Inr (v2, pos)
           \<and> live v1 = take pos (live v) @ x # drop pos (live v)
           \<and> live v2 = live v \<and> GetSize v2 = GetSize v"
proof -
  from assms(3) have p: "pos \<le> size_' v" by (simp add: GetSize_def)
  from Insert_ok [OF assms(1,2) p, of dflt x] obtain v1 where
    i: "Insert dflt pos x v = Inr (v1, pos)" and s1: "size_' v1 = size_' v + 1"
    and b1: "in_bounds v1" and l1: "live v1 = take pos (live v) @ x # drop pos (live v)"
    by blast
  from p s1 have "pos < size_' v1" by simp
  from Erase_ok [OF b1 this] obtain v2 where
    e: "Erase pos v1 = Inr (v2, pos)" and s2: "size_' v2 = size_' v1 - 1"
    and l2: "live v2 = take pos (live v1) @ drop (Suc pos) (live v1)"
    by blast
  have "pos \<le> length (live v)" using p assms(2) by (simp add: length_live)
  with l1 l2 have "live v2 = live v" by simp
  with i e s1 s2 l1 show ?thesis
    by (intro exI [of _ v1] exI [of _ v2]) (simp add: GetSize_def)
qed

lemma insert_then_erase_under_I1_example:
  "I1 vec123 \<and> in_bounds vec123 \<and> 1 \<le> GetSize vec123
   \<and> (\<exists>v1 v2. Insert 0 1 9 vec123 = Inr (v1, 1) \<and> Erase 1 v1 = Inr (v2, 1)
         \<and> live v1 = take 1 (live vec123) @ 9 # drop 1 (live vec123)
         \<and> live v2 = live vec123 \<and> GetSize v2 = GetSize vec123)"
proof -
  have h1: "I1 vec123" by (simp add: I1_def)
  have h2: "in_bounds vec123" by (simp add: in_bounds_def)
  have h3: "1 \<le> GetSize vec123" by (simp add: GetSize_def)
  show ?thesis
    by (intro conjI h1 h2 h3 insert_then_erase_under_I1 [OF h1 h2 h3])
qed

text \<open>
  C7. \<^verbatim>\<open>Insert(pos, x)\<close> followed by \<^verbatim>\<open>Erase\<close> at the returned position should give back
  the original sequence, for every vector and every position from \<^verbatim>\<open>begin()\<close> to
  \<^verbatim>\<open>end()\<close>. It does not on a copy: the copy of \<open>{1}\<close> has size \<open>1\<close>, capacity \<open>0\<close> and one
  slot, so \<^verbatim>\<open>Insert\<close> finds \<^verbatim>\<open>size_ != capacity_\<close>, does not grow, and writes slot \<open>1\<close> of
  the one-slot buffer, at \<^verbatim>\<open>begin()\<close> as well as at \<^verbatim>\<open>end()\<close>. The cause is the capacity
  that the copy constructor leaves at \<open>0\<close>.
\<close>

theorem Insert_overruns_on_copy:
  "SimpleVector_init_list 0 [1 :: int] = Inr \<lparr>data_' = [1], size_' = 1, capacity_' = 1\<rparr>
   \<and> SimpleVector_copy 0 \<lparr>data_' = [1 :: int], size_' = 1, capacity_' = 1\<rparr>
       = Inr \<lparr>data_' = [1], size_' = 1, capacity_' = 0\<rparr>
   \<and> Insert 0 0 9 \<lparr>data_' = [1 :: int], size_' = 1, capacity_' = 0\<rparr> = Inl BufferOverrun
   \<and> Insert 0 1 9 \<lparr>data_' = [1 :: int], size_' = 1, capacity_' = 0\<rparr> = Inl BufferOverrun"
  by code_simp

subsection \<open>Shrinking\<close>

text \<open>
  C9. Let the buffer of \<open>v\<close> have the slots it speaks of. \<^verbatim>\<open>Clear\<close>, \<^verbatim>\<open>PopBack\<close> on a
  non-empty vector, \<^verbatim>\<open>Erase\<close> of a live position and \<^verbatim>\<open>Resize\<close> to a size not above the
  current one all leave \<^verbatim>\<open>GetCapacity()\<close> as it was. No storage is released: the buffer
  keeps its slots, and the first, second and fourth operation do not touch it at all.
\<close>

theorem shrinking_keeps_capacity:
  assumes "in_bounds v"
  shows "GetCapacity (Clear v) = GetCapacity v \<and> data_' (Clear v) = data_' v
       \<and> (0 < GetSize v \<longrightarrow>
            (\<exists>v'. PopBack v = Inr v' \<and> GetCapacity v' = GetCapacity v \<and> data_' v' = data_' v))
       \<and> (pos < GetSize v \<longrightarrow>
            (\<exists>v'. Erase pos v = Inr (v', pos) \<and> GetCapacity v' = GetCapacity v
               \<and> length (data_' v') = length (data_' v)))
       \<and> (new_size \<le> GetSize v \<longrightarrow>
            (\<exists>v'. Resize dflt new_size v = Inr v' \<and> GetCapacity v' = GetCapacity v
               \<and> data_' v' = data_' v))"
proof (intro conjI impI)
  show "GetCapacity (Clear v) = GetCapacity v" by (simp add: Clear_def GetCapacity_def)
  show "data_' (Clear v) = data_' v" by (simp add: Clear_def)
next
  assume "0 < GetSize v"
  then show "\<exists>v'. PopBack v = Inr v' \<and> GetCapacity v' = GetCapacity v \<and> data_' v' = data_' v"
    by (simp add: PopBack_def GetSize_def GetCapacity_def)
next
  assume "pos < GetSize v"
  then have "pos < size_' v" by (simp add: GetSize_def)
  from Erase_ok [OF assms this]
  show "\<exists>v'. Erase pos v = Inr (v', pos) \<and> GetCapacity v' = GetCapacity v
               \<and> length (data_' v') = length (data_' v)"
    by (auto simp: GetCapacity_def)
next
  assume "new_size \<le> GetSize v"
  then show "\<exists>v'. Resize dflt new_size v = Inr v' \<and> GetCapacity v' = GetCapacity v
               \<and> data_' v' = data_' v"
    by (simp add: Resize_def GetSize_def GetCapacity_def)
qed

theorem shrinking_keeps_capacity_witness:
  "in_bounds vec123
   \<and> GetCapacity (Clear vec123) = GetCapacity vec123 \<and> data_' (Clear vec123) = data_' vec123
   \<and> 0 < GetSize vec123
   \<and> (\<exists>v'. PopBack vec123 = Inr v' \<and> GetCapacity v' = GetCapacity vec123
         \<and> data_' v' = data_' vec123)
   \<and> 1 < GetSize vec123
   \<and> (\<exists>v'. Erase 1 vec123 = Inr (v', 1) \<and> GetCapacity v' = GetCapacity vec123
         \<and> length (data_' v') = length (data_' vec123))
   \<and> 2 \<le> GetSize vec123
   \<and> (\<exists>v'. Resize 0 2 vec123 = Inr v' \<and> GetCapacity v' = GetCapacity vec123
         \<and> data_' v' = data_' vec123)"
proof -
  have h: "in_bounds vec123" by (simp add: in_bounds_def)
  have c: "0 < GetSize vec123" "1 < GetSize vec123" "2 \<le> GetSize vec123"
    by (simp_all add: GetSize_def)
  show ?thesis
    using shrinking_keeps_capacity [OF h, of 1 2 0] h c by blast
qed

subsection \<open>Move construction\<close>

text \<open>
  C8. After \<^verbatim>\<open>SimpleVector B(std::move(A))\<close> the source \<open>A\<close> has size \<open>0\<close> and capacity
  \<open>0\<close>, and \<open>B\<close> has the size, the capacity, the buffer and so the live elements that
  \<open>A\<close> had before the move.
\<close>

theorem move_constructor_empties_source:
  "GetSize (snd (SimpleVector_move A)) = 0
   \<and> GetCapacity (snd (SimpleVector_move A)) = 0
   \<and> GetSize (fst (SimpleVector_move A)) = GetSize A
   \<and> GetCapacity (fst (SimpleVector_move A)) = GetCapacity A
   \<and> data_' (fst (SimpleVector_move A)) = data_' A
   \<and> live (fst (SimpleVector_move A)) = live A"
  by (simp add: SimpleVector_move_def GetSize_def GetCapacity_def live_def)

subsection \<open>Self-assignment\<close>

text \<open>
  C10. Assigning an object to itself, by copy or by move, leaves the store as it is:
  the guard \<^verbatim>\<open>this != &rhs\<close> skips the body, so the object keeps its size, its
  capacity and its elements, no temporary is built and no buffer changes owner.
\<close>

theorem self_assignment_is_noop:
  "copy_assign dflt a a s = Inr s \<and> move_assign a a s = s"
  by (simp add: copy_assign_def move_assign_def)

end
